theory Spec2Isabelle
  imports Main
begin

section \<open>The ticket table\<close>

text \<open>
  The program (\<^verbatim>\<open>email-sender.c\<close>) works on one table, \<^verbatim>\<open>tickets\<close>, through four SQL
  statements. The columns it reads and writes are \<^verbatim>\<open>id\<close>, \<^verbatim>\<open>email\<close>, \<^verbatim>\<open>subject\<close>,
  \<^verbatim>\<open>body\<close>, \<^verbatim>\<open>status\<close> and \<^verbatim>\<open>sent_at\<close>. The table's declaration is not part of the
  program; \<^verbatim>\<open>id\<close> is taken to be its key (an integer, printed with \<^verbatim>\<open>%d\<close>), so the table
  is a partial map from ids to rows. \<^verbatim>\<open>status\<close> is a text column that the statements
  compare with the literals \<^verbatim>\<open>'received'\<close>, \<^verbatim>\<open>'processing'\<close> and \<^verbatim>\<open>'completed'\<close>;
  \<^verbatim>\<open>sent_at\<close> is a nullable timestamp written with \<^verbatim>\<open>NOW()\<close>.
\<close>

type_synonym timestamp = nat

record ticket =
  email :: string
  subject :: string
  body :: string
  status :: string
  sent_at :: "timestamp option"

type_synonym table = "int \<rightharpoonup> ticket"

text \<open>The four statements that \<^verbatim>\<open>process_ticket\<close> formats with \<^verbatim>\<open>snprintf\<close>.\<close>

datatype sql =
    ClaimUpdate int
  | FetchSelect int
  | RejectUpdate int
  | CompleteUpdate int

text \<open>
  \<^verbatim>\<open>UPDATE tickets SET status = 'processing' WHERE id = %d AND status = 'received'\<close>
\<close>

definition claim_update :: "int \<Rightarrow> table \<Rightarrow> table" where
  "claim_update ticket_id t =
     (case t ticket_id of
        None \<Rightarrow> t
      | Some r \<Rightarrow>
          if status r = ''received'' then t(ticket_id \<mapsto> r\<lparr>status := ''processing''\<rparr>) else t)"

text \<open>
  \<^verbatim>\<open>SELECT email, subject, body FROM tickets WHERE id = %d AND status = 'processing'\<close>.
  The result is the first row (\<^verbatim>\<open>PQgetvalue(res, 0, _)\<close>), or \<open>None\<close> when
  \<^verbatim>\<open>PQntuples(res) == 0\<close>.
\<close>

definition fetch_select :: "int \<Rightarrow> table \<Rightarrow> (string \<times> string \<times> string) option" where
  "fetch_select ticket_id t =
     (case t ticket_id of
        None \<Rightarrow> None
      | Some r \<Rightarrow>
          if status r = ''processing'' then Some (email r, subject r, body r) else None)"

text \<open>
  \<^verbatim>\<open>UPDATE tickets SET status = 'processing', sent_at = NOW() WHERE id = %d\<close>
\<close>

definition reject_update :: "int \<Rightarrow> timestamp \<Rightarrow> table \<Rightarrow> table" where
  "reject_update ticket_id t_now t =
     (case t ticket_id of
        None \<Rightarrow> t
      | Some r \<Rightarrow> t(ticket_id \<mapsto> r\<lparr>status := ''processing'', sent_at := Some t_now\<rparr>))"

text \<open>
  \<^verbatim>\<open>UPDATE tickets SET sent_at = NOW(), status = 'completed' WHERE id = %d\<close>
\<close>

definition complete_update :: "int \<Rightarrow> timestamp \<Rightarrow> table \<Rightarrow> table" where
  "complete_update ticket_id t_now t =
     (case t ticket_id of
        None \<Rightarrow> t
      | Some r \<Rightarrow> t(ticket_id \<mapsto> r\<lparr>sent_at := Some t_now, status := ''completed''\<rparr>))"

section \<open>Address validation\<close>

text \<open>
  \<^verbatim>\<open>is_valid_email\<close> compiles the POSIX extended regular expression
  \<^verbatim>\<open>^[a-zA-Z0-9._%+-]+@[a-zA-Z0-9.-]+\.[a-zA-Z]{2,}$\<close>
  and matches the address against it. The program never calls \<^verbatim>\<open>setlocale\<close>, so the
  ranges are those of the C locale, that is, of ASCII.
\<close>

definition is_alpha :: "char \<Rightarrow> bool" where
  "is_alpha c = (c \<in> set ''abcdefghijklmnopqrstuvwxyzABCDEFGHIJKLMNOPQRSTUVWXYZ'')"

definition is_digit :: "char \<Rightarrow> bool" where
  "is_digit c = (c \<in> set ''0123456789'')"

text \<open>The bracket expression \<^verbatim>\<open>[a-zA-Z0-9._%+-]\<close>.\<close>

definition local_char :: "char \<Rightarrow> bool" where
  "local_char c = (is_alpha c \<or> is_digit c \<or> c \<in> set ''._%+-'')"

text \<open>The bracket expression \<^verbatim>\<open>[a-zA-Z0-9.-]\<close>.\<close>

definition domain_char :: "char \<Rightarrow> bool" where
  "domain_char c = (is_alpha c \<or> is_digit c \<or> c \<in> set ''.-'')"

text \<open>
  The language of the expression, written as the expression reads: a non-empty local
  part, \<^verbatim>\<open>@\<close>, a non-empty run of domain characters, a dot, and at least two letters,
  anchored at both ends.
\<close>

definition regex_language :: "string \<Rightarrow> bool" where
  "regex_language s =
     (\<exists>l d t. s = l @ ''@'' @ d @ ''.'' @ t
        \<and> l \<noteq> [] \<and> list_all local_char l
        \<and> d \<noteq> [] \<and> list_all domain_char d
        \<and> 2 \<le> length t \<and> list_all is_alpha t)"

text \<open>
  \<^verbatim>\<open>regexec\<close> as a function that computes: the local part is the longest prefix of
  local characters (\<^verbatim>\<open>@\<close> is not one), and the top-level label is the longest suffix of
  letters (the dot before it is not one).
\<close>

definition regexec :: "string \<Rightarrow> bool" where
  "regexec s =
     (let l = takeWhile local_char s; rest = dropWhile local_char s in
      l \<noteq> [] \<and>
      (case rest of
         [] \<Rightarrow> False
       | c # dm \<Rightarrow>
           c = CHR ''@'' \<and> list_all domain_char dm \<and>
           (let t = takeWhile is_alpha (rev dm); pre = dropWhile is_alpha (rev dm) in
            2 \<le> length t \<and>
            (case pre of [] \<Rightarrow> False | p # d \<Rightarrow> p = CHR ''.'' \<and> d \<noteq> []))))"

text \<open>
  \<^verbatim>\<open>is_valid_email\<close>: 0 when \<^verbatim>\<open>regcomp\<close> fails, else whether \<^verbatim>\<open>regexec\<close> returned 0
  (a match). Whether \<^verbatim>\<open>regcomp\<close> succeeds is the caller's parameter.
\<close>

definition is_valid_email :: "bool \<Rightarrow> string \<Rightarrow> bool" where
  "is_valid_email regcomp_ok email_addr =
     (if \<not> regcomp_ok then False else regexec email_addr)"

section \<open>Events\<close>

text \<open>
  What the program does to the world outside its memory, in the order it does it:
  \<^verbatim>\<open>sleep(n)\<close>; \<^verbatim>\<open>PQexec\<close> of a statement, with whether the result status was the
  expected one (\<^verbatim>\<open>PGRES_COMMAND_OK\<close> for an update, \<^verbatim>\<open>PGRES_TUPLES_OK\<close> for the select);
  \<^verbatim>\<open>curl_easy_perform\<close> for an envelope recipient, with its \<^verbatim>\<open>CURLcode\<close>; and the call
  of \<^verbatim>\<open>send_email\<close> for a ticket, with the recipient and the value returned.
\<close>

datatype event =
    Sleep nat
  | Exec sql bool
  | CurlPerform string nat
  | SendEmail int string bool

section \<open>Sending\<close>

definition CURLE_OK :: nat where
  "CURLE_OK = 0"

text \<open>
  \<^verbatim>\<open>send_email(to, subject, body)\<close>. \<open>curl\<close> says whether \<^verbatim>\<open>curl_easy_init\<close> returned a
  handle, \<open>perform_res\<close> is what \<^verbatim>\<open>curl_easy_perform\<close> returns when it is called. The
  local \<^verbatim>\<open>res\<close> starts as \<^verbatim>\<open>CURLE_OK\<close> and is assigned only inside \<^verbatim>\<open>if (curl)\<close>.
  The text of the message (headers and payload, cut to the sizes of the buffers) has
  no part in the value returned and is left out; \<^verbatim>\<open>fmemopen\<close> and the calls that set
  options are taken to succeed, as the function takes them.
\<close>

definition send_email :: "bool \<Rightarrow> nat \<Rightarrow> string \<Rightarrow> string \<Rightarrow> string \<Rightarrow> bool \<times> event list" where
  "send_email curl perform_res to_addr subj bdy =
     (let res0 = CURLE_OK in
      if curl then
        (let res = perform_res in
         if res \<noteq> CURLE_OK then (False, [CurlPerform to_addr res])
         else (res = CURLE_OK, [CurlPerform to_addr res]))
      else (res0 = CURLE_OK, []))"

section \<open>Processing a ticket\<close>

text \<open>
  The state: the table, the function's \<^verbatim>\<open>static int auth_failures\<close>, and the events so
  far. The counter is a C \<^verbatim>\<open>int\<close>; it is incremented only right after the gate below
  has made it less than 5, so the increment never overflows and \<open>int\<close> is exact.
\<close>

record state =
  tickets :: table
  auth_failures :: int
  trace :: "event list"

text \<open>
  What one call of \<^verbatim>\<open>process_ticket\<close> gets from outside: the result status of each
  \<^verbatim>\<open>PQexec\<close>, whether \<^verbatim>\<open>regcomp\<close> and \<^verbatim>\<open>curl_easy_init\<close> succeed, the code of
  \<^verbatim>\<open>curl_easy_perform\<close>, and the database's clock. A statement whose result status is
  an error changes no row, and no other client writes the table between the statements
  of a call: the process is the only writer of the rows it works on.
\<close>

record env =
  claim_ok :: bool
  fetch_ok :: bool
  regcomp_ok :: bool
  curl_init_ok :: bool
  curl_res :: nat
  reject_ok :: bool
  complete_ok :: bool
  now :: timestamp

definition MAX_AUTH_FAILURES :: int where
  "MAX_AUTH_FAILURES = 5"

definition emit :: "event list \<Rightarrow> state \<Rightarrow> state" where
  "emit evs s = s\<lparr>trace := trace s @ evs\<rparr>"

text \<open>
  \<^verbatim>\<open>if (auth_failures >= MAX_AUTH_FAILURES) { sleep(900); auth_failures = 0; }\<close>
\<close>

definition backoff_gate :: "state \<Rightarrow> state" where
  "backoff_gate s =
     (if auth_failures s \<ge> MAX_AUTH_FAILURES
      then (emit [Sleep 900] s)\<lparr>auth_failures := 0\<rparr>
      else s)"

definition process_ticket :: "env \<Rightarrow> int \<Rightarrow> state \<Rightarrow> state" where
  "process_ticket e ticket_id s0 =
     (let s1 = backoff_gate s0;
          s2 = emit [Exec (ClaimUpdate ticket_id) (claim_ok e)] s1
      in
      if \<not> claim_ok e then s2
      else
        let s3 = s2\<lparr>tickets := claim_update ticket_id (tickets s2)\<rparr>;
            s4 = emit [Exec (FetchSelect ticket_id) (fetch_ok e)] s3
        in
        if \<not> fetch_ok e then s4
        else
          case fetch_select ticket_id (tickets s4) of
            None \<Rightarrow> s4
          | Some (email_addr, subj, bdy) \<Rightarrow>
              if \<not> is_valid_email (regcomp_ok e) email_addr then
                let s5 = emit [Exec (RejectUpdate ticket_id) (reject_ok e)] s4 in
                if reject_ok e
                then s5\<lparr>tickets := reject_update ticket_id (now e) (tickets s5)\<rparr>
                else s5
              else
                let (sent, evs) = send_email (curl_init_ok e) (curl_res e) email_addr subj bdy;
                    s5 = emit (evs @ [SendEmail ticket_id email_addr sent]) s4
                in
                if sent then
                  let s6 = emit [Exec (CompleteUpdate ticket_id) (complete_ok e)] s5;
                      s7 = (if complete_ok e
                            then s6\<lparr>tickets := complete_update ticket_id (now e) (tickets s6)\<rparr>
                            else s6)
                  in s7\<lparr>auth_failures := 0\<rparr>
                else s5\<lparr>auth_failures := auth_failures s5 + 1\<rparr>)"

section \<open>Runs of the process\<close>

text \<open>
  \<^verbatim>\<open>main\<close> calls \<^verbatim>\<open>process_ticket\<close> once for each id of the backlog query and then once
  for each notification, one after the other, on the same connection. A run is the list
  of these calls, each with what it gets from outside. At launch the counter is 0. The
  statements of \<^verbatim>\<open>main\<close> itself are \<^verbatim>\<open>LISTEN new_ticket\<close> and the backlog query
  \<^verbatim>\<open>SELECT id FROM tickets WHERE status IN ('received', 'processing')\<close>; neither writes
  a row, so the table changes only inside \<^verbatim>\<open>process_ticket\<close>.
\<close>

fun run :: "(env \<times> int) list \<Rightarrow> state \<Rightarrow> state" where
  "run [] s = s"
| "run ((e, ticket_id) # calls) s = run calls (process_ticket e ticket_id s)"

definition init_state :: "table \<Rightarrow> state" where
  "init_state t = \<lparr>tickets = t, auth_failures = 0, trace = []\<rparr>"

text \<open>The events of one call, and the values its calls of \<^verbatim>\<open>send_email\<close> returned.\<close>

definition events_of :: "env \<Rightarrow> int \<Rightarrow> state \<Rightarrow> event list" where
  "events_of e ticket_id s = drop (length (trace s)) (trace (process_ticket e ticket_id s))"

fun send_result :: "int \<Rightarrow> event \<Rightarrow> bool option" where
  "send_result ticket_id (SendEmail i a b) = (if i = ticket_id then Some b else None)"
| "send_result ticket_id _ = None"

definition send_results :: "int \<Rightarrow> event list \<Rightarrow> bool list" where
  "send_results ticket_id evs = List.map_filter (send_result ticket_id) evs"

definition successful_sends :: "int \<Rightarrow> event list \<Rightarrow> nat" where
  "successful_sends ticket_id evs = length (filter (\<lambda>b. b) (send_results ticket_id evs))"

text \<open>
  A run of failed sends: every call of the list calls \<^verbatim>\<open>send_email\<close> once for its
  ticket and gets 0.
\<close>

fun all_failed :: "(env \<times> int) list \<Rightarrow> state \<Rightarrow> bool" where
  "all_failed [] s = True"
| "all_failed ((e, ticket_id) # calls) s =
     (send_results ticket_id (events_of e ticket_id s) = [False]
      \<and> all_failed calls (process_ticket e ticket_id s))"

text \<open>
  The invariant behind the count of sends: for a ticket, either no call of \<^verbatim>\<open>send_email\<close>
  has returned 1 so far, or one has and the ticket's row is \<open>completed\<close>.
\<close>

definition single_send_inv :: "int \<Rightarrow> state \<Rightarrow> bool" where
  "single_send_inv ticket_id s =
     (successful_sends ticket_id (trace s) = 0
      \<or> successful_sends ticket_id (trace s) = 1
        \<and> map_option status (tickets s ticket_id) = Some ''completed'')"

section \<open>Concrete tickets and environments\<close>

text \<open>An environment in which every call of a library succeeds, at time 1000.\<close>

definition env_ok :: env where
  "env_ok = \<lparr>claim_ok = True, fetch_ok = True, regcomp_ok = True, curl_init_ok = True,
              curl_res = 0, reject_ok = True, complete_ok = True, now = 1000\<rparr>"

text \<open>The transport refuses the message: \<^verbatim>\<open>curl_easy_perform\<close> returns 67, a failed login.\<close>

definition env_send_fails :: env where
  "env_send_fails = env_ok\<lparr>curl_res := 67\<rparr>"

definition ticket42 :: ticket where
  "ticket42 = \<lparr>email = ''a@b.com'', subject = ''S'', body = ''B'',
                status = ''received'', sent_at = None\<rparr>"

definition ticket7 :: ticket where
  "ticket7 = \<lparr>email = ''c@d.org'', subject = ''Done'', body = ''Sent before'',
               status = ''completed'', sent_at = Some 500\<rparr>"

definition ticket8 :: ticket where
  "ticket8 = \<lparr>email = ''e@f.net'', subject = ''Again'', body = ''Left in processing'',
               status = ''processing'', sent_at = None\<rparr>"

definition ticket9 :: ticket where
  "ticket9 = \<lparr>email = ''not-an-email'', subject = ''S'', body = ''B'',
               status = ''received'', sent_at = None\<rparr>"

section \<open>The matcher accepts the language of the expression\<close>

lemma at_not_local: "\<not> local_char CHR ''@''"
  by (simp add: local_char_def is_alpha_def is_digit_def)

lemma dot_not_alpha: "\<not> is_alpha CHR ''.''"
  by (simp add: is_alpha_def)

lemma dot_domain: "domain_char CHR ''.''"
  by (simp add: domain_char_def)

lemma alpha_domain: "is_alpha c \<Longrightarrow> domain_char c"
  by (simp add: domain_char_def)

lemma takeWhile_stop:
  "list_all P xs \<Longrightarrow> \<not> P y \<Longrightarrow> takeWhile P (xs @ y # ys) = xs"
  by (induction xs) auto

lemma dropWhile_stop:
  "list_all P xs \<Longrightarrow> \<not> P y \<Longrightarrow> dropWhile P (xs @ y # ys) = y # ys"
  by (induction xs) auto

lemma regex_language_accepted:
  assumes "regex_language s"
  shows "regexec s"
proof -
  from assms obtain l d t where s: "s = l @ ''@'' @ d @ ''.'' @ t"
    and l: "l \<noteq> []" "list_all local_char l"
    and d: "d \<noteq> []" "list_all domain_char d"
    and t: "2 \<le> length t" "list_all is_alpha t"
    unfolding regex_language_def by blast
  have s': "s = l @ CHR ''@'' # (d @ CHR ''.'' # t)"
    by (simp add: s)
  have tk: "takeWhile local_char s = l"
    and dr: "dropWhile local_char s = CHR ''@'' # (d @ CHR ''.'' # t)"
    unfolding s' using l(2) at_not_local by (rule takeWhile_stop, rule dropWhile_stop)
  have rt: "list_all is_alpha (rev t)"
    using t(2) by (simp add: list_all_iff)
  have tk2: "takeWhile is_alpha (rev t @ CHR ''.'' # rev d) = rev t"
    and dr2: "dropWhile is_alpha (rev t @ CHR ''.'' # rev d) = CHR ''.'' # rev d"
    using rt dot_not_alpha by (rule takeWhile_stop, rule dropWhile_stop)
  have dom: "list_all domain_char (d @ CHR ''.'' # t)"
    using d(2) t(2) dot_domain alpha_domain by (auto simp add: list_all_iff)
  show ?thesis
    unfolding regexec_def tk dr Let_def
    using l(1) d(1) t(1) dom by (simp add: tk2 dr2)
qed

lemma regexec_in_language:
  assumes "regexec s"
  shows "regex_language s"
proof -
  define l where "l = takeWhile local_char s"
  from assms have l: "l \<noteq> []"
    by (simp add: regexec_def Let_def l_def)
  from assms obtain dm where rest: "dropWhile local_char s = CHR ''@'' # dm"
    and dom: "list_all domain_char dm"
    and len: "2 \<le> length (takeWhile is_alpha (rev dm))"
    and pre: "case dropWhile is_alpha (rev dm) of
                [] \<Rightarrow> False | p # d \<Rightarrow> p = CHR ''.'' \<and> d \<noteq> []"
    by (auto simp add: regexec_def Let_def split: list.splits)
  from pre obtain d where d: "dropWhile is_alpha (rev dm) = CHR ''.'' # d" "d \<noteq> []"
    by (auto split: list.splits)
  define t where "t = takeWhile is_alpha (rev dm)"
  have "rev dm = t @ CHR ''.'' # d"
    using takeWhile_dropWhile_id [of is_alpha "rev dm"] d(1) by (simp add: t_def)
  then have "rev (rev dm) = rev (t @ CHR ''.'' # d)"
    by simp
  then have dm: "dm = rev d @ CHR ''.'' # rev t"
    by simp
  have s: "s = l @ ''@'' @ rev d @ ''.'' @ rev t"
    using takeWhile_dropWhile_id [of local_char s] rest dm by (simp add: l_def)
  have "list_all local_char l"
    unfolding l_def list_all_iff by (meson set_takeWhileD)
  moreover have "list_all is_alpha (rev t)"
    unfolding t_def list_all_iff set_rev by (meson set_takeWhileD)
  moreover have "list_all domain_char (rev d)"
    using dom unfolding dm by (simp add: list_all_iff)
  moreover have "2 \<le> length (rev t)"
    using len by (simp add: t_def)
  ultimately show ?thesis
    unfolding regex_language_def using s l d(2) by blast
qed

lemma regexec_iff_language: "regexec s \<longleftrightarrow> regex_language s"
  using regexec_in_language regex_language_accepted by blast

section \<open>The paths through \<^verbatim>\<open>process_ticket\<close>\<close>

lemmas pt_defs = process_ticket_def emit_def Let_def

lemma gate_fields [simp]:
  "tickets (backoff_gate s) = tickets s"
  "auth_failures (backoff_gate s) = (if 5 \<le> auth_failures s then 0 else auth_failures s)"
  "trace (backoff_gate s) = trace s @ (if 5 \<le> auth_failures s then [Sleep 900] else [])"
  by (simp_all add: backoff_gate_def emit_def MAX_AUTH_FAILURES_def)

lemma gate_idem: "backoff_gate (backoff_gate s) = backoff_gate s"
  by (simp add: backoff_gate_def emit_def MAX_AUTH_FAILURES_def)

lemma send_email_cases:
  "send_email c r a su bo = (\<not> c \<or> r = 0, if c then [CurlPerform a r] else [])"
  by (simp add: send_email_def CURLE_OK_def)

lemma pt_claim_failed:
  "\<not> claim_ok e \<Longrightarrow>
   process_ticket e i s = emit [Exec (ClaimUpdate i) False] (backoff_gate s)"
  by (simp add: pt_defs)

lemma pt_fetch_failed:
  "claim_ok e \<Longrightarrow> \<not> fetch_ok e \<Longrightarrow>
   process_ticket e i s =
     (backoff_gate s)\<lparr>tickets := claim_update i (tickets s),
        trace := trace (backoff_gate s) @ [Exec (ClaimUpdate i) True, Exec (FetchSelect i) False]\<rparr>"
  by (simp add: pt_defs)

lemma pt_no_row:
  "claim_ok e \<Longrightarrow> fetch_ok e \<Longrightarrow> fetch_select i (claim_update i (tickets s)) = None \<Longrightarrow>
   process_ticket e i s =
     (backoff_gate s)\<lparr>tickets := claim_update i (tickets s),
        trace := trace (backoff_gate s) @ [Exec (ClaimUpdate i) True, Exec (FetchSelect i) True]\<rparr>"
  by (simp add: pt_defs)

lemma pt_rejected:
  "claim_ok e \<Longrightarrow> fetch_ok e \<Longrightarrow>
   fetch_select i (claim_update i (tickets s)) = Some (a, su, bo) \<Longrightarrow>
   \<not> is_valid_email (regcomp_ok e) a \<Longrightarrow>
   process_ticket e i s =
     (backoff_gate s)\<lparr>tickets :=
          (if reject_ok e then reject_update i (now e) (claim_update i (tickets s))
           else claim_update i (tickets s)),
        trace := trace (backoff_gate s) @ [Exec (ClaimUpdate i) True, Exec (FetchSelect i) True,
                   Exec (RejectUpdate i) (reject_ok e)]\<rparr>"
  by (simp add: pt_defs)

lemma pt_sent:
  "claim_ok e \<Longrightarrow> fetch_ok e \<Longrightarrow>
   fetch_select i (claim_update i (tickets s)) = Some (a, su, bo) \<Longrightarrow>
   is_valid_email (regcomp_ok e) a \<Longrightarrow> \<not> curl_init_ok e \<or> curl_res e = 0 \<Longrightarrow>
   process_ticket e i s =
     (backoff_gate s)\<lparr>tickets :=
          (if complete_ok e then complete_update i (now e) (claim_update i (tickets s))
           else claim_update i (tickets s)),
        auth_failures := 0,
        trace := trace (backoff_gate s) @ [Exec (ClaimUpdate i) True, Exec (FetchSelect i) True] @
                   (if curl_init_ok e then [CurlPerform a (curl_res e)] else []) @
                   [SendEmail i a True, Exec (CompleteUpdate i) (complete_ok e)]\<rparr>"
  by (auto simp add: pt_defs send_email_cases)

lemma pt_send_failed:
  "claim_ok e \<Longrightarrow> fetch_ok e \<Longrightarrow>
   fetch_select i (claim_update i (tickets s)) = Some (a, su, bo) \<Longrightarrow>
   is_valid_email (regcomp_ok e) a \<Longrightarrow> curl_init_ok e \<Longrightarrow> curl_res e \<noteq> 0 \<Longrightarrow>
   process_ticket e i s =
     (backoff_gate s)\<lparr>tickets := claim_update i (tickets s),
        auth_failures := auth_failures (backoff_gate s) + 1,
        trace := trace (backoff_gate s) @ [Exec (ClaimUpdate i) True, Exec (FetchSelect i) True,
                   CurlPerform a (curl_res e), SendEmail i a False]\<rparr>"
  by (simp add: pt_defs send_email_cases)

lemmas pt_paths = pt_claim_failed pt_fetch_failed pt_no_row pt_rejected pt_sent pt_send_failed

text \<open>Every call takes exactly one of the six paths.\<close>

lemma pt_cases [case_names claim_failed fetch_failed no_row rejected sent send_failed]:
  obtains
    "\<not> claim_ok e"
  | "claim_ok e" "\<not> fetch_ok e"
  | "claim_ok e" "fetch_ok e" "fetch_select i (claim_update i (tickets s)) = None"
  | a su bo where "claim_ok e" "fetch_ok e"
      "fetch_select i (claim_update i (tickets s)) = Some (a, su, bo)"
      "\<not> is_valid_email (regcomp_ok e) a"
  | a su bo where "claim_ok e" "fetch_ok e"
      "fetch_select i (claim_update i (tickets s)) = Some (a, su, bo)"
      "is_valid_email (regcomp_ok e) a" "\<not> curl_init_ok e \<or> curl_res e = 0"
  | a su bo where "claim_ok e" "fetch_ok e"
      "fetch_select i (claim_update i (tickets s)) = Some (a, su, bo)"
      "is_valid_email (regcomp_ok e) a" "curl_init_ok e" "curl_res e \<noteq> 0"
proof (cases "fetch_select i (claim_update i (tickets s))")
  case None
  then show ?thesis using that(1,2,3) by blast
next
  case (Some x)
  obtain a su bo where "x = (a, su, bo)" by (cases x)
  with Some show ?thesis using that by blast
qed

subsection \<open>The statements on one row\<close>

lemma fetch_after_claim_Some:
  "fetch_select i (claim_update i t) = Some (a, su, bo) \<longleftrightarrow>
     (\<exists>r. t i = Some r \<and> (status r = ''received'' \<or> status r = ''processing'')
          \<and> a = email r \<and> su = subject r \<and> bo = body r)"
  by (auto simp add: fetch_select_def claim_update_def split: option.splits if_splits)

lemma fetch_after_claim_None:
  "fetch_select i (claim_update i t) = None \<longleftrightarrow>
     (t i = None \<or> (\<exists>r. t i = Some r \<and> status r \<noteq> ''received'' \<and> status r \<noteq> ''processing''))"
  by (auto simp add: fetch_select_def claim_update_def split: option.splits if_splits)

lemma claim_update_apply:
  "claim_update i t j =
     (if j = i
      then (case t i of
              None \<Rightarrow> None
            | Some r \<Rightarrow> Some (if status r = ''received'' then r\<lparr>status := ''processing''\<rparr> else r))
      else t j)"
  by (simp add: claim_update_def split: option.splits)

lemma reject_update_apply:
  "reject_update i n t j =
     (if j = i then map_option (\<lambda>r. r\<lparr>status := ''processing'', sent_at := Some n\<rparr>) (t i)
      else t j)"
  by (simp add: reject_update_def split: option.splits)

lemma complete_update_apply:
  "complete_update i n t j =
     (if j = i then map_option (\<lambda>r. r\<lparr>sent_at := Some n, status := ''completed''\<rparr>) (t i)
      else t j)"
  by (simp add: complete_update_def split: option.splits)

lemma claim_update_noop:
  "t i = None \<or> (\<exists>r. t i = Some r \<and> status r \<noteq> ''received'') \<Longrightarrow> claim_update i t = t"
  by (auto simp add: claim_update_def split: option.splits)

subsection \<open>The events of a call\<close>

lemma trace_prefix: "\<exists>evs. trace (process_ticket e i s) = trace s @ evs"
  by (cases rule: pt_cases [where e=e and i=i and s=s])
     (simp_all add: pt_paths emit_def)

lemma trace_events_of: "trace (process_ticket e i s) = trace s @ events_of e i s"
  using trace_prefix [of e i s] by (auto simp add: events_of_def)

lemma events_claim_failed:
  "\<not> claim_ok e \<Longrightarrow> events_of e i s =
     (if 5 \<le> auth_failures s then [Sleep 900] else []) @ [Exec (ClaimUpdate i) False]"
  by (simp add: events_of_def pt_claim_failed emit_def)

lemma events_fetch_failed:
  "claim_ok e \<Longrightarrow> \<not> fetch_ok e \<Longrightarrow> events_of e i s =
     (if 5 \<le> auth_failures s then [Sleep 900] else []) @
       [Exec (ClaimUpdate i) True, Exec (FetchSelect i) False]"
  by (simp add: events_of_def pt_fetch_failed)

lemma events_no_row:
  "claim_ok e \<Longrightarrow> fetch_ok e \<Longrightarrow> fetch_select i (claim_update i (tickets s)) = None \<Longrightarrow>
   events_of e i s =
     (if 5 \<le> auth_failures s then [Sleep 900] else []) @
       [Exec (ClaimUpdate i) True, Exec (FetchSelect i) True]"
  by (simp add: events_of_def pt_no_row)

lemma events_rejected:
  "claim_ok e \<Longrightarrow> fetch_ok e \<Longrightarrow>
   fetch_select i (claim_update i (tickets s)) = Some (a, su, bo) \<Longrightarrow>
   \<not> is_valid_email (regcomp_ok e) a \<Longrightarrow>
   events_of e i s =
     (if 5 \<le> auth_failures s then [Sleep 900] else []) @
       [Exec (ClaimUpdate i) True, Exec (FetchSelect i) True, Exec (RejectUpdate i) (reject_ok e)]"
  by (simp add: events_of_def pt_rejected)

lemma events_sent:
  "claim_ok e \<Longrightarrow> fetch_ok e \<Longrightarrow>
   fetch_select i (claim_update i (tickets s)) = Some (a, su, bo) \<Longrightarrow>
   is_valid_email (regcomp_ok e) a \<Longrightarrow> \<not> curl_init_ok e \<or> curl_res e = 0 \<Longrightarrow>
   events_of e i s =
     (if 5 \<le> auth_failures s then [Sleep 900] else []) @
       [Exec (ClaimUpdate i) True, Exec (FetchSelect i) True] @
       (if curl_init_ok e then [CurlPerform a (curl_res e)] else []) @
       [SendEmail i a True, Exec (CompleteUpdate i) (complete_ok e)]"
  by (simp add: events_of_def pt_sent)

lemma events_send_failed:
  "claim_ok e \<Longrightarrow> fetch_ok e \<Longrightarrow>
   fetch_select i (claim_update i (tickets s)) = Some (a, su, bo) \<Longrightarrow>
   is_valid_email (regcomp_ok e) a \<Longrightarrow> curl_init_ok e \<Longrightarrow> curl_res e \<noteq> 0 \<Longrightarrow>
   events_of e i s =
     (if 5 \<le> auth_failures s then [Sleep 900] else []) @
       [Exec (ClaimUpdate i) True, Exec (FetchSelect i) True,
        CurlPerform a (curl_res e), SendEmail i a False]"
  by (simp add: events_of_def pt_send_failed)

lemmas events_paths = events_claim_failed events_fetch_failed events_no_row events_rejected
  events_sent events_send_failed

lemma send_results_simps [simp]:
  "send_results i [] = []"
  "send_results i (Sleep n # evs) = send_results i evs"
  "send_results i (Exec q b # evs) = send_results i evs"
  "send_results i (CurlPerform a c # evs) = send_results i evs"
  "send_results i (SendEmail j a b # evs) =
     (if j = i then b # send_results i evs else send_results i evs)"
  "send_results i (xs @ ys) = send_results i xs @ send_results i ys"
  by (simp_all add: send_results_def List.map_filter_def)

text \<open>
  \<^verbatim>\<open>send_email\<close> returns 1 in a call exactly on the path \<open>sent\<close>, and 0 exactly on the
  path \<open>send_failed\<close>.
\<close>

lemma send_results_True_iff:
  "send_results i (events_of e i s) = [True] \<longleftrightarrow>
     claim_ok e \<and> fetch_ok e \<and>
     (\<exists>a su bo. fetch_select i (claim_update i (tickets s)) = Some (a, su, bo) \<and>
        is_valid_email (regcomp_ok e) a) \<and> (\<not> curl_init_ok e \<or> curl_res e = 0)"
  by (cases rule: pt_cases [where e=e and i=i and s=s]) (auto simp add: events_paths)

lemma send_results_False_iff:
  "send_results i (events_of e i s) = [False] \<longleftrightarrow>
     claim_ok e \<and> fetch_ok e \<and>
     (\<exists>a su bo. fetch_select i (claim_update i (tickets s)) = Some (a, su, bo) \<and>
        is_valid_email (regcomp_ok e) a) \<and> curl_init_ok e \<and> curl_res e \<noteq> 0"
  by (cases rule: pt_cases [where e=e and i=i and s=s]) (auto simp add: events_paths)

subsection \<open>Runs\<close>

lemma run_append: "run (xs @ ys) s = run ys (run xs s)"
  by (induction xs arbitrary: s) auto

lemma run_snoc: "run (xs @ [(e, i)]) s = process_ticket e i (run xs s)"
  by (simp add: run_append)

lemma step_counter_bounds:
  "auth_failures (process_ticket e i s) \<le> 5"
  "0 \<le> auth_failures s \<Longrightarrow> 0 \<le> auth_failures (process_ticket e i s)"
  by (cases rule: pt_cases [where e=e and i=i and s=s]; simp add: pt_paths emit_def)+

lemma failed_step_counter:
  assumes "send_results i (events_of e i s) = [False]"
  shows "auth_failures (process_ticket e i s) = auth_failures (backoff_gate s) + 1"
proof -
  from assms obtain a su bo where
    "claim_ok e" "fetch_ok e" "fetch_select i (claim_update i (tickets s)) = Some (a, su, bo)"
    "is_valid_email (regcomp_ok e) a" "curl_init_ok e" "curl_res e \<noteq> 0"
    unfolding send_results_False_iff by blast
  then show ?thesis by (simp add: pt_send_failed)
qed

lemma sent_step_counter:
  assumes "send_results i (events_of e i s) = [True]"
  shows "auth_failures (process_ticket e i s) = 0"
proof -
  from assms obtain a su bo where
    "claim_ok e" "fetch_ok e" "fetch_select i (claim_update i (tickets s)) = Some (a, su, bo)"
    "is_valid_email (regcomp_ok e) a" "\<not> curl_init_ok e \<or> curl_res e = 0"
    unfolding send_results_True_iff by blast
  then show ?thesis by (simp add: pt_sent)
qed

lemma all_failed_counter:
  "all_failed calls s \<Longrightarrow> auth_failures s + int (length calls) \<le> 5 \<Longrightarrow>
   auth_failures (run calls s) = auth_failures s + int (length calls)"
proof (induction calls arbitrary: s)
  case Nil
  then show ?case by simp
next
  case (Cons c calls)
  obtain e i where c: "c = (e, i)" by (cases c)
  from Cons.prems have f: "send_results i (events_of e i s) = [False]"
    and rest: "all_failed calls (process_ticket e i s)"
    by (simp_all add: c)
  from Cons.prems have lt: "auth_failures s < 5" by simp
  have step: "auth_failures (process_ticket e i s) = auth_failures s + 1"
    using failed_step_counter [OF f] lt by simp
  have "auth_failures (run calls (process_ticket e i s))
          = auth_failures (process_ticket e i s) + int (length calls)"
    using Cons.prems(2) step by (intro Cons.IH [OF rest]) simp
  then show ?case by (simp add: c step)
qed

subsection \<open>Rows are never added or removed\<close>

lemma dom_updates [simp]:
  "dom (claim_update i t) = dom t"
  "dom (reject_update i n t) = dom t"
  "dom (complete_update i n t) = dom t"
  by (auto simp add: claim_update_def reject_update_def complete_update_def
      split: option.splits if_splits)

lemma dom_step: "dom (tickets (process_ticket e i s)) = dom (tickets s)"
  by (cases rule: pt_cases [where e=e and i=i and s=s]) (simp_all add: pt_paths emit_def)

lemma dom_run: "dom (tickets (run calls s)) = dom (tickets s)"
  by (induction calls s rule: run.induct) (simp_all add: dom_step)

subsection \<open>Successful sends of one ticket\<close>

lemma successful_sends_append:
  "successful_sends i (xs @ ys) = successful_sends i xs + successful_sends i ys"
  by (simp add: successful_sends_def)

lemma successful_sends_step:
  "successful_sends i (trace (process_ticket e j s))
     = successful_sends i (trace s) + successful_sends i (events_of e j s)"
  by (simp add: trace_events_of successful_sends_append)

lemma other_ticket_step:
  assumes "j \<noteq> i"
  shows "tickets (process_ticket e j s) i = tickets s i"
    and "successful_sends i (events_of e j s) = 0"
  using assms
  by (cases rule: pt_cases [where e=e and i=j and s=s];
      simp add: pt_paths events_paths emit_def successful_sends_def
        claim_update_apply reject_update_apply complete_update_apply)+

lemma completed_not_fetched:
  "map_option status (t i) = Some ''completed'' \<Longrightarrow> fetch_select i (claim_update i t) = None"
  by (auto simp add: fetch_after_claim_None)

lemma completed_stays:
  assumes "map_option status (tickets s i) = Some ''completed''"
  shows "tickets (process_ticket e i s) i = tickets s i"
    and "successful_sends i (events_of e i s) = 0"
proof -
  have none: "fetch_select i (claim_update i (tickets s)) = None"
    using assms by (rule completed_not_fetched)
  have noop: "claim_update i (tickets s) = tickets s"
    using assms by (intro claim_update_noop) auto
  show "tickets (process_ticket e i s) i = tickets s i"
    using none noop
    by (cases rule: pt_cases [where e=e and i=i and s=s]) (simp_all add: pt_paths emit_def)
  show "successful_sends i (events_of e i s) = 0"
    using none
    by (cases rule: pt_cases [where e=e and i=i and s=s])
       (simp_all add: events_paths successful_sends_def)
qed

lemma same_ticket_step:
  assumes "Exec (CompleteUpdate i) False \<notin> set (events_of e i s)"
  shows "successful_sends i (events_of e i s) = 0
     \<or> successful_sends i (events_of e i s) = 1
       \<and> map_option status (tickets (process_ticket e i s) i) = Some ''completed''"
proof (cases rule: pt_cases [where e=e and i=i and s=s])
  case (sent a su bo)
  then have ok: "complete_ok e"
    using assms by (auto simp add: events_sent)
  from sent(3) obtain r where "tickets s i = Some r"
    unfolding fetch_after_claim_Some by blast
  then have "map_option status (tickets (process_ticket e i s) i) = Some ''completed''"
    using ok by (simp add: pt_sent [OF sent] complete_update_apply claim_update_apply)
  moreover have "successful_sends i (events_of e i s) = 1"
    by (simp add: events_sent [OF sent] successful_sends_def)
  ultimately show ?thesis by simp
qed (simp_all add: events_paths successful_sends_def)

lemma single_send_inv_step:
  assumes inv: "single_send_inv i s"
    and ok: "Exec (CompleteUpdate i) False \<notin> set (events_of e j s)"
  shows "single_send_inv i (process_ticket e j s)"
proof (cases "j = i")
  case False
  then show ?thesis
    using inv other_ticket_step [of j i e s]
    by (simp add: single_send_inv_def successful_sends_step)
next
  case True
  show ?thesis
  proof (cases "map_option status (tickets s i) = Some ''completed''")
    case True
    then show ?thesis
      using inv completed_stays [of s i e] \<open>j = i\<close>
      by (simp add: single_send_inv_def successful_sends_step)
  next
    case False
    then have zero: "successful_sends i (trace s) = 0"
      using inv by (auto simp add: single_send_inv_def)
    show ?thesis
      using same_ticket_step [of i e s] ok zero \<open>j = i\<close>
      by (auto simp add: single_send_inv_def successful_sends_step)
  qed
qed

lemma single_send_inv_run:
  "single_send_inv i s \<Longrightarrow> Exec (CompleteUpdate i) False \<notin> set (trace (run calls s)) \<Longrightarrow>
   single_send_inv i (run calls s)"
proof (induction calls arbitrary: s rule: rev_induct)
  case Nil
  then show ?case by simp
next
  case (snoc c calls)
  obtain e j where c: "c = (e, j)" by (cases c)
  let ?s = "run calls s"
  have tr: "trace (run (calls @ [c]) s) = trace ?s @ events_of e j ?s"
    by (simp add: c run_snoc trace_events_of)
  from snoc.prems(2) have a: "Exec (CompleteUpdate i) False \<notin> set (trace ?s)"
    and b: "Exec (CompleteUpdate i) False \<notin> set (events_of e j ?s)"
    by (simp_all add: tr)
  have "single_send_inv i ?s"
    using snoc.IH [OF snoc.prems(1) a] .
  then show ?case
    using b by (simp add: c run_snoc single_send_inv_step)
qed

subsection \<open>Evaluating the concrete scenarios\<close>

lemmas eval_defs = process_ticket_def emit_def backoff_gate_def MAX_AUTH_FAILURES_def
  claim_update_def fetch_select_def reject_update_def complete_update_def
  is_valid_email_def regexec_def local_char_def domain_char_def is_alpha_def is_digit_def
  send_email_def CURLE_OK_def events_of_def init_state_def env_ok_def env_send_fails_def
  ticket42_def ticket7_def ticket8_def ticket9_def

lemma three_failed_sends:
  "all_failed [(env_send_fails, 42), (env_send_fails, 42), (env_send_fails, 8)]
     (init_state [42 \<mapsto> ticket42, 8 \<mapsto> ticket8])"
  by (simp add: eval_defs)

lemma fourth_send_succeeds:
  "send_results 42 (events_of env_ok 42
     (run [(env_send_fails, 42), (env_send_fails, 42), (env_send_fails, 8)]
         (init_state [42 \<mapsto> ticket42, 8 \<mapsto> ticket8]))) = [True]"
  by (simp add: eval_defs)


lemma retry_trace:
  "trace (run [(env_send_fails, 42), (env_ok, 42), (env_ok, 42)] (init_state [42 \<mapsto> ticket42])) =
     [Exec (ClaimUpdate 42) True, Exec (FetchSelect 42) True, CurlPerform ''a@b.com'' 67,
      SendEmail 42 ''a@b.com'' False,
      Exec (ClaimUpdate 42) True, Exec (FetchSelect 42) True, CurlPerform ''a@b.com'' 0,
      SendEmail 42 ''a@b.com'' True, Exec (CompleteUpdate 42) True,
      Exec (ClaimUpdate 42) True, Exec (FetchSelect 42) True]"
  by (simp add: eval_defs)

section \<open>The backoff gate\<close>

text \<open>
  Claim C4. In every call of \<^verbatim>\<open>process_ticket\<close>: when the failure counter is at least 5
  at entry, the call first sleeps 900 seconds (15 minutes), once; the counter is 0 right
  after the wait, and the rest of the call is the processing of the ticket from that
  state, with no second wait. When the counter is below 5 at entry, the call does not
  sleep and the gate leaves the state as it is.
\<close>

theorem backoff_gate_at_entry:
  "(5 \<le> auth_failures s \<longrightarrow>
      events_of e i s = Sleep 900 # events_of e i (backoff_gate s)
      \<and> (\<forall>n. Sleep n \<notin> set (events_of e i (backoff_gate s)))
      \<and> auth_failures (backoff_gate s) = 0
      \<and> process_ticket e i s = process_ticket e i (backoff_gate s))
   \<and> (auth_failures s < 5 \<longrightarrow>
      (\<forall>n. Sleep n \<notin> set (events_of e i s)) \<and> backoff_gate s = s)"
proof (intro conjI impI)
  assume hi: "5 \<le> auth_failures s"
  have idem: "backoff_gate (backoff_gate s) = backoff_gate s"
    by (rule gate_idem)
  show same: "process_ticket e i s = process_ticket e i (backoff_gate s)"
    by (simp add: process_ticket_def idem)
  show "auth_failures (backoff_gate s) = 0"
    using hi by simp
  have "trace (process_ticket e i s) = trace (backoff_gate s) @ events_of e i (backoff_gate s)"
    using trace_events_of [of e i "backoff_gate s"] same by simp
  then show "events_of e i s = Sleep 900 # events_of e i (backoff_gate s)"
    using hi by (simp add: events_of_def)
  show "\<forall>n. Sleep n \<notin> set (events_of e i (backoff_gate s))"
    using hi by (cases rule: pt_cases [where e=e and i=i and s="backoff_gate s"])
      (auto simp add: events_paths)
next
  assume lo: "auth_failures s < 5"
  show "\<forall>n. Sleep n \<notin> set (events_of e i s)"
    using lo by (cases rule: pt_cases [where e=e and i=i and s=s])
      (auto simp add: events_paths)
  show "backoff_gate s = s"
    using lo by (simp add: backoff_gate_def MAX_AUTH_FAILURES_def)
qed

text \<open>
  The gate at work: with the counter at 5 the call for ticket 42 sleeps and goes on from
  counter 0; with the counter at 4 it does not sleep.
\<close>

theorem backoff_gate_at_entry_witness:
  "events_of env_ok 42 \<lparr>tickets = [42 \<mapsto> ticket42], auth_failures = 5, trace = []\<rparr>
     = Sleep 900 # events_of env_ok 42
         (backoff_gate \<lparr>tickets = [42 \<mapsto> ticket42], auth_failures = 5, trace = []\<rparr>)
   \<and> auth_failures
        (backoff_gate \<lparr>tickets = [42 \<mapsto> ticket42], auth_failures = 5, trace = []\<rparr>) = 0
   \<and> Sleep 900 \<notin> set (events_of env_ok 42
        \<lparr>tickets = [42 \<mapsto> ticket42], auth_failures = 4, trace = []\<rparr>)
   \<and> backoff_gate \<lparr>tickets = [42 \<mapsto> ticket42], auth_failures = 4, trace = []\<rparr>
       = \<lparr>tickets = [42 \<mapsto> ticket42], auth_failures = 4, trace = []\<rparr>"
  using
    backoff_gate_at_entry
      [of "\<lparr>tickets = [42 \<mapsto> ticket42], auth_failures = 5, trace = []\<rparr>" env_ok 42]
    backoff_gate_at_entry
      [of "\<lparr>tickets = [42 \<mapsto> ticket42], auth_failures = 4, trace = []\<rparr>" env_ok 42]
  by simp

section \<open>The failure counter\<close>

text \<open>
  Claim C10. Between the calls of \<^verbatim>\<open>process_ticket\<close> of any run that starts at launch,
  the failure counter is at least 0 and at most 5: a call increments it only after the
  gate has made it less than 5.
\<close>

theorem failure_counter_bounded:
  "0 \<le> auth_failures (run calls (init_state t))
   \<and> auth_failures (run calls (init_state t)) \<le> 5"
proof (induction calls rule: rev_induct)
  case Nil
  show ?case by (simp add: init_state_def)
next
  case (snoc c calls)
  obtain e i where c: "c = (e, i)" by (cases c)
  show ?case
    using snoc step_counter_bounds [where e=e and i=i and s="run calls (init_state t)"]
    by (simp add: c run_snoc)
qed

text \<open>
  Five failed sends for ticket 8 bring the counter to 5; the sixth call waits, starts
  again from 0 and, failing too, leaves the counter at 1.
\<close>

lemma five_failures:
  "auth_failures (run [(env_send_fails, 8), (env_send_fails, 8), (env_send_fails, 8),
        (env_send_fails, 8), (env_send_fails, 8)] (init_state [8 \<mapsto> ticket8])) = 5"
  by (simp add: eval_defs)

lemma six_failures:
  "auth_failures (run [(env_send_fails, 8), (env_send_fails, 8), (env_send_fails, 8),
        (env_send_fails, 8), (env_send_fails, 8), (env_send_fails, 8)]
        (init_state [8 \<mapsto> ticket8])) = 1"
  by (simp add: eval_defs)

theorem failure_counter_bounded_witness:
  "0 \<le> auth_failures (run [(env_send_fails, 8), (env_send_fails, 8), (env_send_fails, 8),
        (env_send_fails, 8), (env_send_fails, 8)] (init_state [8 \<mapsto> ticket8]))
   \<and> auth_failures (run [(env_send_fails, 8), (env_send_fails, 8), (env_send_fails, 8),
        (env_send_fails, 8), (env_send_fails, 8)] (init_state [8 \<mapsto> ticket8])) \<le> 5
   \<and> auth_failures (run [(env_send_fails, 8), (env_send_fails, 8), (env_send_fails, 8),
        (env_send_fails, 8), (env_send_fails, 8)] (init_state [8 \<mapsto> ticket8])) = 5
   \<and> auth_failures (run [(env_send_fails, 8), (env_send_fails, 8), (env_send_fails, 8),
        (env_send_fails, 8), (env_send_fails, 8), (env_send_fails, 8)]
        (init_state [8 \<mapsto> ticket8])) = 1"
  using failure_counter_bounded [of "[(env_send_fails, 8), (env_send_fails, 8),
      (env_send_fails, 8), (env_send_fails, 8), (env_send_fails, 8)]" "[8 \<mapsto> ticket8]"]
    five_failures six_failures
  by blast

text \<open>
  Claim C5. The failure counter is 0 at launch; a call in which \<^verbatim>\<open>send_email\<close> returns 1
  leaves it at 0; and a run from launch of fewer than five calls whose sends all fail
  counts them, after which one call whose send succeeds leaves the counter at 0.
\<close>

theorem failure_counter_reset:
  "auth_failures (init_state t) = 0
   \<and> (send_results i (events_of e i s) = [True] \<longrightarrow> auth_failures (process_ticket e i s) = 0)
   \<and> (length calls < 5 \<and> all_failed calls (init_state t)
        \<and> send_results i (events_of e i (run calls (init_state t))) = [True] \<longrightarrow>
        auth_failures (run calls (init_state t)) = int (length calls)
        \<and> auth_failures (run (calls @ [(e, i)]) (init_state t)) = 0)"
proof (intro conjI impI)
  show "auth_failures (init_state t) = 0"
    by (simp add: init_state_def)
next
  assume "send_results i (events_of e i s) = [True]"
  then show "auth_failures (process_ticket e i s) = 0"
    by (rule sent_step_counter)
next
  assume h: "length calls < 5 \<and> all_failed calls (init_state t)
        \<and> send_results i (events_of e i (run calls (init_state t))) = [True]"
  then show "auth_failures (run calls (init_state t)) = int (length calls)"
    using all_failed_counter [of calls "init_state t"] by (simp add: init_state_def)
  from h show "auth_failures (run (calls @ [(e, i)]) (init_state t)) = 0"
    by (simp add: run_snoc sent_step_counter)
qed

text \<open>
  Three failed sends (ticket 42 twice, ticket 8 once) bring the counter to 3; the send
  for ticket 42 then succeeds and the counter is 0.
\<close>

theorem failure_counter_reset_witness:
  "auth_failures (init_state [42 \<mapsto> ticket42, 8 \<mapsto> ticket8]) = 0
   \<and> auth_failures (run [(env_send_fails, 42), (env_send_fails, 42), (env_send_fails, 8)]
         (init_state [42 \<mapsto> ticket42, 8 \<mapsto> ticket8])) = 3
   \<and> auth_failures
        (run [(env_send_fails, 42), (env_send_fails, 42), (env_send_fails, 8), (env_ok, 42)]
         (init_state [42 \<mapsto> ticket42, 8 \<mapsto> ticket8])) = 0"
  using failure_counter_reset [of "[42 \<mapsto> ticket42, 8 \<mapsto> ticket8]" 42 env_ok
      "run [(env_send_fails, 42), (env_send_fails, 42), (env_send_fails, 8)]
         (init_state [42 \<mapsto> ticket42, 8 \<mapsto> ticket8])"
      "[(env_send_fails, 42), (env_send_fails, 42), (env_send_fails, 8)]"]
    three_failed_sends fourth_send_succeeds
  by simp

section \<open>A failed send\<close>

text \<open>
  Claim C6 says that when the send for a ticket fails, \<^verbatim>\<open>process_ticket\<close> performs no
  database write for that ticket and that the only change of state is the failure counter
  going up by exactly 1. Over the whole call this is not so. Ticket 42 is \<open>received\<close>
  and the counter is 0: the claim update of the same call moves the row to \<open>processing\<close>
  before the send fails. Ticket 8 is in \<open>processing\<close> and the counter is 5 at entry: the
  call waits, resets the counter and, the send failing, leaves it at 1.
\<close>

theorem failed_send_after_claim_and_gate:
  "send_results 42 (events_of env_send_fails 42 (init_state [42 \<mapsto> ticket42])) = [False]
   \<and> events_of env_send_fails 42 (init_state [42 \<mapsto> ticket42]) =
       [Exec (ClaimUpdate 42) True, Exec (FetchSelect 42) True, CurlPerform ''a@b.com'' 67,
        SendEmail 42 ''a@b.com'' False]
   \<and> map_option status (tickets (init_state [42 \<mapsto> ticket42]) 42) = Some ''received''
   \<and> map_option status
        (tickets (process_ticket env_send_fails 42 (init_state [42 \<mapsto> ticket42])) 42)
       = Some ''processing''
   \<and> send_results 8 (events_of env_send_fails 8
        \<lparr>tickets = [8 \<mapsto> ticket8], auth_failures = 5, trace = []\<rparr>) = [False]
   \<and> events_of env_send_fails 8 \<lparr>tickets = [8 \<mapsto> ticket8], auth_failures = 5, trace = []\<rparr> =
       [Sleep 900, Exec (ClaimUpdate 8) True, Exec (FetchSelect 8) True,
        CurlPerform ''e@f.net'' 67, SendEmail 8 ''e@f.net'' False]
   \<and> auth_failures (process_ticket env_send_fails 8
        \<lparr>tickets = [8 \<mapsto> ticket8], auth_failures = 5, trace = []\<rparr>) = 1"
  by (simp add: eval_defs)

text \<open>
  Claim C6, amended. When the send for a ticket fails (\<^verbatim>\<open>send_email\<close> returns 0), the call
  executes no statement after the fetch: the table is the one the claim update left, so
  the ticket's row is in \<open>processing\<close> with \<^verbatim>\<open>sent_at\<close> and every other column as before
  and no other row is touched, and the failure counter is one more than after the gate.
  For a ticket that was already in \<open>processing\<close> the whole table is as at entry, and with
  the counter below 5 at entry the counter is one more than at entry.
\<close>

theorem send_failure_frame:
  assumes failed: "send_results i (events_of e i s) = [False]"
  shows "tickets (process_ticket e i s) = claim_update i (tickets s)
    \<and> (\<exists>r. tickets s i = Some r
          \<and> tickets (process_ticket e i s) i = Some (r\<lparr>status := ''processing''\<rparr>)
          \<and> (status r = ''processing'' \<longrightarrow> tickets (process_ticket e i s) = tickets s)
          \<and> events_of e i s =
              (if 5 \<le> auth_failures s then [Sleep 900] else []) @
              [Exec (ClaimUpdate i) True, Exec (FetchSelect i) True,
               CurlPerform (email r) (curl_res e), SendEmail i (email r) False])
    \<and> (\<forall>j. j \<noteq> i \<longrightarrow> tickets (process_ticket e i s) j = tickets s j)
    \<and> auth_failures (process_ticket e i s) = auth_failures (backoff_gate s) + 1
    \<and> (auth_failures s < 5 \<longrightarrow> auth_failures (process_ticket e i s) = auth_failures s + 1)"
proof -
  from failed obtain a su bo where path:
    "claim_ok e" "fetch_ok e" "fetch_select i (claim_update i (tickets s)) = Some (a, su, bo)"
    "is_valid_email (regcomp_ok e) a" "curl_init_ok e" "curl_res e \<noteq> 0"
    unfolding send_results_False_iff by blast
  from path(3) obtain r where r: "tickets s i = Some r"
    "status r = ''received'' \<or> status r = ''processing''" "a = email r"
    unfolding fetch_after_claim_Some by blast
  have tab: "tickets (process_ticket e i s) = claim_update i (tickets s)"
    using path by (simp add: pt_send_failed)
  have row: "tickets (process_ticket e i s) i = Some (r\<lparr>status := ''processing''\<rparr>)"
    using r by (auto simp add: tab claim_update_apply)
  have same: "status r = ''processing'' \<longrightarrow> tickets (process_ticket e i s) = tickets s"
    using r(1) by (simp add: tab claim_update_noop)
  have evs: "events_of e i s =
      (if 5 \<le> auth_failures s then [Sleep 900] else []) @
      [Exec (ClaimUpdate i) True, Exec (FetchSelect i) True,
       CurlPerform (email r) (curl_res e), SendEmail i (email r) False]"
    using events_send_failed [OF path] r(3) by simp
  have others: "\<forall>j. j \<noteq> i \<longrightarrow> tickets (process_ticket e i s) j = tickets s j"
    by (simp add: tab claim_update_apply)
  have cnt: "auth_failures (process_ticket e i s) = auth_failures (backoff_gate s) + 1"
    using path by (simp add: pt_send_failed)
  have cnt': "auth_failures s < 5 \<longrightarrow> auth_failures (process_ticket e i s) = auth_failures s + 1"
    using cnt by simp
  from tab r(1) row same evs others cnt cnt' show ?thesis by blast
qed

text \<open>
  Ticket 8 is in \<open>processing\<close> and the counter is 2; the transport refuses the message.
  The table is unchanged and the counter is 3.
\<close>

theorem send_failure_frame_witness:
  "send_results 8 (events_of env_send_fails 8
      \<lparr>tickets = [8 \<mapsto> ticket8], auth_failures = 2, trace = []\<rparr>) = [False]
   \<and> tickets (process_ticket env_send_fails 8
        \<lparr>tickets = [8 \<mapsto> ticket8], auth_failures = 2, trace = []\<rparr>) = [8 \<mapsto> ticket8]
   \<and> auth_failures (process_ticket env_send_fails 8
        \<lparr>tickets = [8 \<mapsto> ticket8], auth_failures = 2, trace = []\<rparr>) = 3"
proof -
  have h: "send_results 8 (events_of env_send_fails 8
      \<lparr>tickets = [8 \<mapsto> ticket8], auth_failures = 2, trace = []\<rparr>) = [False]"
    by (simp add: eval_defs)
  have "claim_update 8 [8 \<mapsto> ticket8] = [8 \<mapsto> ticket8]"
    by (simp add: claim_update_def ticket8_def)
  with h send_failure_frame [OF h] show ?thesis by simp
qed

section \<open>Writes of \<^verbatim>\<open>sent_at\<close> and the rows of the table\<close>

text \<open>
  Claim C8. From any state, a call of \<^verbatim>\<open>process_ticket\<close> and any run of calls leave the
  set of rows as it is: no row is deleted. The claim update never changes \<^verbatim>\<open>sent_at\<close>.
  When a call changes the \<^verbatim>\<open>sent_at\<close> of a row, it is the row of the ticket processed, the
  new value is the time of the call, and the write is either the completion update after
  a successful send (status \<open>completed\<close>) or the rejection update for an invalid address,
  with no send (status \<open>processing\<close>).
\<close>

theorem sent_at_writes_and_no_delete:
  "dom (tickets (process_ticket e i s)) = dom (tickets s)
   \<and> dom (tickets (run calls s)) = dom (tickets s)
   \<and> map_option sent_at (claim_update i t j) = map_option sent_at (t j)
   \<and> (\<forall>j r r'. tickets s j = Some r \<and> tickets (process_ticket e i s) j = Some r'
         \<and> sent_at r' \<noteq> sent_at r \<longrightarrow>
        j = i \<and> sent_at r' = Some (now e) \<and>
        (send_results i (events_of e i s) = [True]
           \<and> last (events_of e i s) = Exec (CompleteUpdate i) True
           \<and> status r' = ''completed''
         \<or> send_results i (events_of e i s) = []
           \<and> last (events_of e i s) = Exec (RejectUpdate i) True
           \<and> status r' = ''processing''
           \<and> \<not> is_valid_email (regcomp_ok e) (email r)))"
proof (intro conjI allI impI)
  show "dom (tickets (process_ticket e i s)) = dom (tickets s)" by (rule dom_step)
  show "dom (tickets (run calls s)) = dom (tickets s)" by (rule dom_run)
  show "map_option sent_at (claim_update i t j) = map_option sent_at (t j)"
    by (simp add: claim_update_apply split: option.splits)
next
  fix j r r'
  assume h: "tickets s j = Some r \<and> tickets (process_ticket e i s) j = Some r'
         \<and> sent_at r' \<noteq> sent_at r"
  then have r: "tickets s j = Some r" and r': "tickets (process_ticket e i s) j = Some r'"
    and ne: "sent_at r' \<noteq> sent_at r" by simp_all
  show "j = i"
    using r r' ne
    by (cases rule: pt_cases [where e=e and i=i and s=s])
       (auto simp add: pt_paths emit_def claim_update_apply reject_update_apply
          complete_update_apply split: if_splits)
  show "sent_at r' = Some (now e)"
    using r r' ne
    by (cases rule: pt_cases [where e=e and i=i and s=s])
       (auto simp add: pt_paths emit_def claim_update_apply reject_update_apply
          complete_update_apply split: if_splits)
  show "send_results i (events_of e i s) = [True]
           \<and> last (events_of e i s) = Exec (CompleteUpdate i) True
           \<and> status r' = ''completed''
         \<or> send_results i (events_of e i s) = []
           \<and> last (events_of e i s) = Exec (RejectUpdate i) True
           \<and> status r' = ''processing''
           \<and> \<not> is_valid_email (regcomp_ok e) (email r)"
    using r r' ne
    by (cases rule: pt_cases [where e=e and i=i and s=s])
       (auto simp add: pt_paths events_paths emit_def claim_update_apply reject_update_apply
          complete_update_apply fetch_after_claim_Some split: if_splits)
qed

text \<open>
  The send for ticket 42 succeeds: its \<^verbatim>\<open>sent_at\<close> goes from null to the time of the call
  by the completion update, and the table still has exactly the row 42.
\<close>

theorem sent_at_writes_and_no_delete_witness:
  "tickets (init_state [42 \<mapsto> ticket42]) 42 = Some ticket42
   \<and> tickets (process_ticket env_ok 42 (init_state [42 \<mapsto> ticket42])) 42
       = Some (ticket42\<lparr>sent_at := Some 1000, status := ''completed''\<rparr>)
   \<and> sent_at (ticket42\<lparr>sent_at := Some 1000, status := ''completed''\<rparr>) \<noteq> sent_at ticket42
   \<and> send_results 42 (events_of env_ok 42 (init_state [42 \<mapsto> ticket42])) = [True]
   \<and> last (events_of env_ok 42 (init_state [42 \<mapsto> ticket42])) = Exec (CompleteUpdate 42) True
   \<and> dom (tickets (process_ticket env_ok 42 (init_state [42 \<mapsto> ticket42]))) = {42}"
  using sent_at_writes_and_no_delete [of env_ok 42 "init_state [42 \<mapsto> ticket42]" "[]"]
  by (simp add: eval_defs)

section \<open>A ticket that the claim update does not claim\<close>

text \<open>
  Claim C1 says that whenever the claim update affects no row, \<^verbatim>\<open>process_ticket\<close>
  returns at once, with no fetch, no send and no change of status. The function never
  looks at the number of rows the update affected: it goes on to the select, which asks
  for status \<open>processing\<close>. Ticket 8 is already in \<open>processing\<close>: the claim update leaves
  the table as it is, and the call fetches the row, sends the message and sets the
  status to \<open>completed\<close>. Ticket 7 is \<open>completed\<close>: the select is executed all the same.
\<close>

theorem processing_ticket_is_processed_again:
  "claim_update 8 [8 \<mapsto> ticket8] = [8 \<mapsto> ticket8]
   \<and> events_of env_ok 8 (init_state [8 \<mapsto> ticket8]) =
       [Exec (ClaimUpdate 8) True, Exec (FetchSelect 8) True, CurlPerform ''e@f.net'' 0,
        SendEmail 8 ''e@f.net'' True, Exec (CompleteUpdate 8) True]
   \<and> map_option status (tickets (init_state [8 \<mapsto> ticket8]) 8) = Some ''processing''
   \<and> map_option status (tickets (process_ticket env_ok 8 (init_state [8 \<mapsto> ticket8])) 8)
       = Some ''completed''
   \<and> claim_update 7 [7 \<mapsto> ticket7] = [7 \<mapsto> ticket7]
   \<and> events_of env_ok 7 (init_state [7 \<mapsto> ticket7]) =
       [Exec (ClaimUpdate 7) True, Exec (FetchSelect 7) True]"
  by (simp add: eval_defs)

text \<open>
  Claim C1, amended. For a ticket id that has no row, or whose row is in neither
  \<open>received\<close> nor \<open>processing\<close>, the call changes no row and sends nothing: after the gate
  it executes the claim update and, when that command succeeds, the select, which
  returns no row; the counter is as the gate left it.
\<close>

theorem unclaimable_ticket_noop:
  assumes "tickets s i = None
     \<or> (\<exists>r. tickets s i = Some r \<and> status r \<noteq> ''received'' \<and> status r \<noteq> ''processing'')"
  shows "tickets (process_ticket e i s) = tickets s
    \<and> auth_failures (process_ticket e i s) = auth_failures (backoff_gate s)
    \<and> events_of e i s =
        (if 5 \<le> auth_failures s then [Sleep 900] else []) @
        [Exec (ClaimUpdate i) (claim_ok e)] @
        (if claim_ok e then [Exec (FetchSelect i) (fetch_ok e)] else [])
    \<and> (\<forall>j. send_results j (events_of e i s) = [])
    \<and> (\<forall>a c. CurlPerform a c \<notin> set (events_of e i s))"
proof -
  have none: "fetch_select i (claim_update i (tickets s)) = None"
    using assms by (simp add: fetch_after_claim_None)
  have noop: "claim_update i (tickets s) = tickets s"
    using assms by (intro claim_update_noop) auto
  have evs: "events_of e i s =
        (if 5 \<le> auth_failures s then [Sleep 900] else []) @
        [Exec (ClaimUpdate i) (claim_ok e)] @
        (if claim_ok e then [Exec (FetchSelect i) (fetch_ok e)] else [])"
    using none
    by (cases rule: pt_cases [where e=e and i=i and s=s]) (simp_all add: events_paths)
  have st: "tickets (process_ticket e i s) = tickets s
    \<and> auth_failures (process_ticket e i s) = auth_failures (backoff_gate s)"
    using none noop
    by (cases rule: pt_cases [where e=e and i=i and s=s]) (simp_all add: pt_paths emit_def)
  from evs have "\<forall>j. send_results j (events_of e i s) = []"
    and "\<forall>a c. CurlPerform a c \<notin> set (events_of e i s)"
    by simp_all
  with st evs show ?thesis by blast
qed

text \<open>Ticket 7 is \<open>completed\<close> and there is no ticket 99: both calls change nothing.\<close>

theorem unclaimable_ticket_noop_witness:
  "tickets (process_ticket env_ok 7 (init_state [7 \<mapsto> ticket7])) = [7 \<mapsto> ticket7]
   \<and> send_results 7 (events_of env_ok 7 (init_state [7 \<mapsto> ticket7])) = []
   \<and> tickets (process_ticket env_ok 99 (init_state [7 \<mapsto> ticket7])) = [7 \<mapsto> ticket7]
   \<and> events_of env_ok 99 (init_state [7 \<mapsto> ticket7]) =
       [Exec (ClaimUpdate 99) True, Exec (FetchSelect 99) True]"
proof -
  have a: "tickets (init_state [7 \<mapsto> ticket7]) 7 = None
     \<or> (\<exists>r. tickets (init_state [7 \<mapsto> ticket7]) 7 = Some r
           \<and> status r \<noteq> ''received'' \<and> status r \<noteq> ''processing'')"
    by (simp add: init_state_def ticket7_def)
  have b: "tickets (init_state [7 \<mapsto> ticket7]) 99 = None
     \<or> (\<exists>r. tickets (init_state [7 \<mapsto> ticket7]) 99 = Some r
           \<and> status r \<noteq> ''received'' \<and> status r \<noteq> ''processing'')"
    by (simp add: init_state_def)
  show ?thesis
    using unclaimable_ticket_noop [OF a, of env_ok] unclaimable_ticket_noop [OF b, of env_ok]
    by (simp add: init_state_def env_ok_def)
qed

section \<open>A successful send\<close>

text \<open>
  Claim C7 says that a received ticket with a valid address is \<open>completed\<close> with
  \<^verbatim>\<open>sent_at\<close> set once the claim, the fetch and the send have succeeded. The function
  tests the result of the completion update and only reports its failure: for ticket 42
  the send succeeds and the update fails, and the row stays in \<open>processing\<close> with
  \<^verbatim>\<open>sent_at\<close> null.
\<close>

theorem completion_update_can_fail:
  "tickets (init_state [42 \<mapsto> ticket42]) 42 = Some ticket42
   \<and> status ticket42 = ''received''
   \<and> is_valid_email (regcomp_ok (env_ok\<lparr>complete_ok := False\<rparr>)) (email ticket42)
   \<and> events_of (env_ok\<lparr>complete_ok := False\<rparr>) 42 (init_state [42 \<mapsto> ticket42]) =
       [Exec (ClaimUpdate 42) True, Exec (FetchSelect 42) True, CurlPerform ''a@b.com'' 0,
        SendEmail 42 ''a@b.com'' True, Exec (CompleteUpdate 42) False]
   \<and> tickets (process_ticket (env_ok\<lparr>complete_ok := False\<rparr>) 42
        (init_state [42 \<mapsto> ticket42])) 42
       = Some (ticket42\<lparr>status := ''processing''\<rparr>)
   \<and> sent_at (ticket42\<lparr>status := ''processing''\<rparr>) = None"
  by (simp add: eval_defs)

text \<open>
  Claim C7, amended. For a ticket in \<open>received\<close> with a valid address, when the claim
  update and the select succeed, \<^verbatim>\<open>send_email\<close> returns 1 and the completion update
  succeeds, the row is \<open>completed\<close> with \<^verbatim>\<open>sent_at\<close> the time of the call and its other
  columns unchanged, and the failure counter is 0.
\<close>

theorem successful_send_completes:
  assumes row: "tickets s i = Some r"
    and received: "status r = ''received''"
    and valid: "is_valid_email (regcomp_ok e) (email r)"
    and claim: "claim_ok e"
    and fetch: "fetch_ok e"
    and sent: "fst (send_email (curl_init_ok e) (curl_res e) (email r) (subject r) (body r))"
    and completed: "complete_ok e"
  shows "tickets (process_ticket e i s) i
           = Some (r\<lparr>sent_at := Some (now e), status := ''completed''\<rparr>)
    \<and> auth_failures (process_ticket e i s) = 0"
proof -
  have fetched: "fetch_select i (claim_update i (tickets s)) = Some (email r, subject r, body r)"
    using row received by (simp add: fetch_after_claim_Some)
  have ok: "\<not> curl_init_ok e \<or> curl_res e = 0"
    using sent by (simp add: send_email_cases)
  have claimed: "claim_update i (tickets s) i = Some (r\<lparr>status := ''processing''\<rparr>)"
    using row received by (simp add: claim_update_apply)
  show ?thesis
    using completed claimed
    by (simp add: pt_sent [OF claim fetch fetched valid ok] complete_update_apply)
qed

text \<open>Ticket 42, \<^verbatim>\<open>a@b.com\<close>, with every library call succeeding.\<close>

theorem successful_send_completes_witness:
  "tickets (process_ticket env_ok 42 (init_state [42 \<mapsto> ticket42])) 42
       = Some (ticket42\<lparr>sent_at := Some 1000, status := ''completed''\<rparr>)
   \<and> auth_failures (process_ticket env_ok 42 (init_state [42 \<mapsto> ticket42])) = 0"
proof -
  have "is_valid_email (regcomp_ok env_ok) (email ticket42)"
    by (simp add: eval_defs)
  moreover have "fst (send_email (curl_init_ok env_ok) (curl_res env_ok)
      (email ticket42) (subject ticket42) (body ticket42))"
    by (simp add: eval_defs)
  ultimately show ?thesis
    using successful_send_completes [of "init_state [42 \<mapsto> ticket42]" 42 ticket42 env_ok]
    by (simp add: init_state_def env_ok_def ticket42_def)
qed

section \<open>An invalid address\<close>

text \<open>
  Claim C3 says that for a fetched address that fails validation \<^verbatim>\<open>process_ticket\<close>
  stamps \<^verbatim>\<open>sent_at\<close>, leaves the status \<open>processing\<close>, never sends and does not
  increment the failure counter. The function executes the rejection update and never
  looks at its result: for ticket 9, \<^verbatim>\<open>not-an-email\<close>, with that update failing, the row
  is in \<open>processing\<close> and \<^verbatim>\<open>sent_at\<close> is still null.
\<close>

theorem rejection_update_can_fail:
  "fetch_select 9 (claim_update 9 [9 \<mapsto> ticket9]) = Some (''not-an-email'', ''S'', ''B'')
   \<and> \<not> is_valid_email True ''not-an-email''
   \<and> events_of (env_ok\<lparr>reject_ok := False\<rparr>) 9 (init_state [9 \<mapsto> ticket9]) =
       [Exec (ClaimUpdate 9) True, Exec (FetchSelect 9) True, Exec (RejectUpdate 9) False]
   \<and> tickets (process_ticket (env_ok\<lparr>reject_ok := False\<rparr>) 9 (init_state [9 \<mapsto> ticket9])) 9
       = Some (ticket9\<lparr>status := ''processing''\<rparr>)
   \<and> sent_at (ticket9\<lparr>status := ''processing''\<rparr>) = None"
  by (simp add: eval_defs)

text \<open>
  Claim C3, amended. When the fetch returns a row whose address fails validation, the
  call executes the rejection update as its last statement; the row is in \<open>processing\<close>,
  with \<^verbatim>\<open>sent_at\<close> the time of the call when the update succeeds and unchanged when it
  fails; no other row changes; \<^verbatim>\<open>send_email\<close> is not called and nothing is handed to the
  transport; and the failure counter is as the gate left it.
\<close>

theorem invalid_address_rejected:
  assumes claim: "claim_ok e"
    and fetch: "fetch_ok e"
    and fetched: "fetch_select i (claim_update i (tickets s)) = Some (a, su, bo)"
    and invalid: "\<not> is_valid_email (regcomp_ok e) a"
  shows "(\<exists>r. tickets s i = Some r \<and> a = email r
           \<and> tickets (process_ticket e i s) i =
               Some (if reject_ok e then r\<lparr>status := ''processing'', sent_at := Some (now e)\<rparr>
                     else r\<lparr>status := ''processing''\<rparr>))
    \<and> (\<forall>j. j \<noteq> i \<longrightarrow> tickets (process_ticket e i s) j = tickets s j)
    \<and> events_of e i s =
        (if 5 \<le> auth_failures s then [Sleep 900] else []) @
        [Exec (ClaimUpdate i) True, Exec (FetchSelect i) True,
         Exec (RejectUpdate i) (reject_ok e)]
    \<and> (\<forall>j. send_results j (events_of e i s) = [])
    \<and> (\<forall>x c. CurlPerform x c \<notin> set (events_of e i s))
    \<and> auth_failures (process_ticket e i s) = auth_failures (backoff_gate s)"
proof -
  note step = pt_rejected [OF claim fetch fetched invalid]
  note evs = events_rejected [OF claim fetch fetched invalid]
  from fetched obtain r where r: "tickets s i = Some r"
    "status r = ''received'' \<or> status r = ''processing''" "a = email r"
    unfolding fetch_after_claim_Some by blast
  have row: "tickets (process_ticket e i s) i =
      Some (if reject_ok e then r\<lparr>status := ''processing'', sent_at := Some (now e)\<rparr>
            else r\<lparr>status := ''processing''\<rparr>)"
    using r by (auto simp add: step claim_update_apply reject_update_apply)
  have others: "\<forall>j. j \<noteq> i \<longrightarrow> tickets (process_ticket e i s) j = tickets s j"
    by (simp add: step claim_update_apply reject_update_apply)
  have cnt: "auth_failures (process_ticket e i s) = auth_failures (backoff_gate s)"
    by (simp add: step)
  have "\<forall>j. send_results j (events_of e i s) = []"
    and "\<forall>x c. CurlPerform x c \<notin> set (events_of e i s)"
    by (simp_all add: evs)
  with r(1,3) row others evs cnt show ?thesis by blast
qed

text \<open>Ticket 9 with every library call succeeding: \<^verbatim>\<open>sent_at\<close> is the time of the call.\<close>

theorem invalid_address_rejected_witness:
  "tickets (process_ticket env_ok 9 (init_state [9 \<mapsto> ticket9])) 9
     = Some (ticket9\<lparr>status := ''processing'', sent_at := Some 1000\<rparr>)
   \<and> events_of env_ok 9 (init_state [9 \<mapsto> ticket9]) =
       [Exec (ClaimUpdate 9) True, Exec (FetchSelect 9) True, Exec (RejectUpdate 9) True]
   \<and> auth_failures (process_ticket env_ok 9 (init_state [9 \<mapsto> ticket9])) = 0"
proof -
  have f: "fetch_select 9 (claim_update 9 (tickets (init_state [9 \<mapsto> ticket9])))
      = Some (''not-an-email'', ''S'', ''B'')"
    by (simp add: eval_defs)
  have v: "\<not> is_valid_email (regcomp_ok env_ok) ''not-an-email''"
    by (simp add: eval_defs)
  have c: "claim_ok env_ok" and g: "fetch_ok env_ok"
    by (simp_all add: env_ok_def)
  show ?thesis
    using invalid_address_rejected [OF c g f v]
    by (simp add: init_state_def env_ok_def ticket9_def)
qed

section \<open>A transport handle that cannot be created\<close>

text \<open>
  Claim C9 says that when \<^verbatim>\<open>curl_easy_init\<close> returns \<^verbatim>\<open>NULL\<close>, \<^verbatim>\<open>send_email\<close> returns 1
  although nothing was delivered, so that the ticket is marked completed with \<^verbatim>\<open>sent_at\<close>
  stamped. The first part holds as it stands. The second holds when the completion
  update succeeds: for ticket 42 with no handle and that update failing, \<^verbatim>\<open>send_email\<close>
  returns 1, nothing is handed to the transport, and the row stays in \<open>processing\<close> with
  \<^verbatim>\<open>sent_at\<close> null.
\<close>

theorem init_failure_and_failed_completion:
  "send_email False 0 ''a@b.com'' ''S'' ''B'' = (True, [])
   \<and> events_of (env_ok\<lparr>curl_init_ok := False, complete_ok := False\<rparr>) 42
        (init_state [42 \<mapsto> ticket42]) =
       [Exec (ClaimUpdate 42) True, Exec (FetchSelect 42) True,
        SendEmail 42 ''a@b.com'' True, Exec (CompleteUpdate 42) False]
   \<and> tickets (process_ticket (env_ok\<lparr>curl_init_ok := False, complete_ok := False\<rparr>) 42
        (init_state [42 \<mapsto> ticket42])) 42
       = Some (ticket42\<lparr>status := ''processing''\<rparr>)
   \<and> sent_at (ticket42\<lparr>status := ''processing''\<rparr>) = None"
  by (simp add: eval_defs)

text \<open>
  Claim C9, amended. Without a handle \<^verbatim>\<open>send_email\<close> returns 1 and does not call
  \<^verbatim>\<open>curl_easy_perform\<close>. A call of \<^verbatim>\<open>process_ticket\<close> that reaches the send without a
  handle has no transport event, records the send as successful, executes the completion
  update as its last statement and resets the failure counter; when that update succeeds
  the row is \<open>completed\<close> with \<^verbatim>\<open>sent_at\<close> the time of the call, and otherwise it stays in
  \<open>processing\<close>.
\<close>

theorem curl_init_failure_counts_as_sent:
  "send_email False res a su bo = (True, [])
   \<and> (claim_ok e \<and> fetch_ok e
        \<and> fetch_select i (claim_update i (tickets s)) = Some (a, su, bo)
        \<and> is_valid_email (regcomp_ok e) a \<and> \<not> curl_init_ok e \<longrightarrow>
      events_of e i s =
        (if 5 \<le> auth_failures s then [Sleep 900] else []) @
        [Exec (ClaimUpdate i) True, Exec (FetchSelect i) True,
         SendEmail i a True, Exec (CompleteUpdate i) (complete_ok e)]
      \<and> auth_failures (process_ticket e i s) = 0
      \<and> (\<exists>r. tickets s i = Some r
           \<and> tickets (process_ticket e i s) i =
               Some (if complete_ok e then r\<lparr>sent_at := Some (now e), status := ''completed''\<rparr>
                     else r\<lparr>status := ''processing''\<rparr>)))"
proof (intro conjI impI)
  show "send_email False res a su bo = (True, [])"
    by (simp add: send_email_def CURLE_OK_def)
next
  assume h: "claim_ok e \<and> fetch_ok e
        \<and> fetch_select i (claim_update i (tickets s)) = Some (a, su, bo)
        \<and> is_valid_email (regcomp_ok e) a \<and> \<not> curl_init_ok e"
  then have claim: "claim_ok e" and fetch: "fetch_ok e"
    and fetched: "fetch_select i (claim_update i (tickets s)) = Some (a, su, bo)"
    and valid: "is_valid_email (regcomp_ok e) a"
    and init: "\<not> curl_init_ok e \<or> curl_res e = 0" and no_handle: "\<not> curl_init_ok e"
    by simp_all
  note step = pt_sent [OF claim fetch fetched valid init]
  show "events_of e i s =
        (if 5 \<le> auth_failures s then [Sleep 900] else []) @
        [Exec (ClaimUpdate i) True, Exec (FetchSelect i) True,
         SendEmail i a True, Exec (CompleteUpdate i) (complete_ok e)]"
    using events_sent [OF claim fetch fetched valid init] no_handle by simp
  show "auth_failures (process_ticket e i s) = 0"
    by (simp add: step)
  from fetched obtain r where r: "tickets s i = Some r"
    "status r = ''received'' \<or> status r = ''processing''"
    unfolding fetch_after_claim_Some by blast
  have "tickets (process_ticket e i s) i =
      Some (if complete_ok e then r\<lparr>sent_at := Some (now e), status := ''completed''\<rparr>
            else r\<lparr>status := ''processing''\<rparr>)"
    using r by (auto simp add: step claim_update_apply complete_update_apply)
  with r(1) show "\<exists>r. tickets s i = Some r
           \<and> tickets (process_ticket e i s) i =
               Some (if complete_ok e then r\<lparr>sent_at := Some (now e), status := ''completed''\<rparr>
                     else r\<lparr>status := ''processing''\<rparr>)"
    by blast
qed

text \<open>
  Ticket 42 with no handle and every other call succeeding: no transport event, and the
  row is \<open>completed\<close> with \<^verbatim>\<open>sent_at\<close> set.
\<close>

theorem curl_init_failure_counts_as_sent_witness:
  "events_of (env_ok\<lparr>curl_init_ok := False\<rparr>) 42 (init_state [42 \<mapsto> ticket42]) =
       [Exec (ClaimUpdate 42) True, Exec (FetchSelect 42) True,
        SendEmail 42 ''a@b.com'' True, Exec (CompleteUpdate 42) True]
   \<and> tickets (process_ticket (env_ok\<lparr>curl_init_ok := False\<rparr>) 42
        (init_state [42 \<mapsto> ticket42])) 42
       = Some (ticket42\<lparr>sent_at := Some 1000, status := ''completed''\<rparr>)
   \<and> auth_failures (process_ticket (env_ok\<lparr>curl_init_ok := False\<rparr>) 42
        (init_state [42 \<mapsto> ticket42])) = 0"
proof -
  have f: "fetch_select 42 (claim_update 42 (tickets (init_state [42 \<mapsto> ticket42])))
      = Some (''a@b.com'', ''S'', ''B'')"
    by (simp add: eval_defs)
  have v: "is_valid_email (regcomp_ok (env_ok\<lparr>curl_init_ok := False\<rparr>)) ''a@b.com''"
    by (simp add: eval_defs)
  show ?thesis
    using curl_init_failure_counts_as_sent
      [of 0 "''a@b.com''" "''S''" "''B''" "env_ok\<lparr>curl_init_ok := False\<rparr>" 42
          "init_state [42 \<mapsto> ticket42]"] f v
    by (simp add: init_state_def env_ok_def ticket42_def)
qed

section \<open>Sends per ticket\<close>

text \<open>
  Claim C2 says that in every sequence of calls at most one successful send happens for
  a ticket before its status is \<open>completed\<close>. Ticket 42 is processed twice. In the first
  call the send succeeds and the completion update fails, so the row stays in
  \<open>processing\<close>; the second call fetches it again and sends again. Two calls of
  \<^verbatim>\<open>send_email\<close> for ticket 42 have returned 1 when the status becomes \<open>completed\<close>.
\<close>

theorem double_send_after_failed_completion:
  "trace (run [(env_ok\<lparr>complete_ok := False\<rparr>, 42), (env_ok, 42)]
      (init_state [42 \<mapsto> ticket42])) =
     [Exec (ClaimUpdate 42) True, Exec (FetchSelect 42) True, CurlPerform ''a@b.com'' 0,
      SendEmail 42 ''a@b.com'' True, Exec (CompleteUpdate 42) False,
      Exec (ClaimUpdate 42) True, Exec (FetchSelect 42) True, CurlPerform ''a@b.com'' 0,
      SendEmail 42 ''a@b.com'' True, Exec (CompleteUpdate 42) True]
   \<and> map_option status
       (tickets (run [(env_ok\<lparr>complete_ok := False\<rparr>, 42)] (init_state [42 \<mapsto> ticket42])) 42)
       = Some ''processing''
   \<and> successful_sends 42
       (trace (run [(env_ok\<lparr>complete_ok := False\<rparr>, 42), (env_ok, 42)]
          (init_state [42 \<mapsto> ticket42]))) = 2
   \<and> map_option status
       (tickets (run [(env_ok\<lparr>complete_ok := False\<rparr>, 42), (env_ok, 42)]
          (init_state [42 \<mapsto> ticket42])) 42) = Some ''completed''"
  by (simp add: eval_defs successful_sends_def)

text \<open>
  Claim C2, amended. In every run from launch in which no completion update for the
  ticket has failed, at most one call of \<^verbatim>\<open>send_email\<close> for the ticket has returned 1,
  and when one has, the ticket's status is \<open>completed\<close>.
\<close>

theorem single_send_unless_completion_fails:
  assumes "Exec (CompleteUpdate i) False \<notin> set (trace (run calls (init_state t)))"
  shows "successful_sends i (trace (run calls (init_state t))) \<le> 1
    \<and> (successful_sends i (trace (run calls (init_state t))) = 1 \<longrightarrow>
         map_option status (tickets (run calls (init_state t)) i) = Some ''completed'')"
proof -
  have "single_send_inv i (init_state t)"
    by (simp add: single_send_inv_def init_state_def successful_sends_def)
  then have "single_send_inv i (run calls (init_state t))"
    using assms by (rule single_send_inv_run)
  then show ?thesis
    by (auto simp add: single_send_inv_def)
qed

text \<open>
  Ticket 42 processed three times: the first send fails, the second succeeds and the
  row is completed, the third call finds nothing to do. One successful send.
\<close>

theorem single_send_unless_completion_fails_witness:
  "Exec (CompleteUpdate 42) False \<notin>
     set (trace (run [(env_send_fails, 42), (env_ok, 42), (env_ok, 42)]
        (init_state [42 \<mapsto> ticket42])))
   \<and> successful_sends 42
       (trace (run [(env_send_fails, 42), (env_ok, 42), (env_ok, 42)]
          (init_state [42 \<mapsto> ticket42]))) = 1
   \<and> map_option status
       (tickets (run [(env_send_fails, 42), (env_ok, 42), (env_ok, 42)]
          (init_state [42 \<mapsto> ticket42])) 42) = Some ''completed''"
proof -
  have h: "Exec (CompleteUpdate 42) False \<notin>
     set (trace (run [(env_send_fails, 42), (env_ok, 42), (env_ok, 42)]
        (init_state [42 \<mapsto> ticket42])))"
    unfolding retry_trace by simp
  have one: "successful_sends 42
       (trace (run [(env_send_fails, 42), (env_ok, 42), (env_ok, 42)]
          (init_state [42 \<mapsto> ticket42]))) = 1"
    unfolding retry_trace by (simp add: successful_sends_def)
  show ?thesis
    using single_send_unless_completion_fails [OF h] h one by simp
qed

end
